theory Spec2Isabelle
  imports Complex_Main
begin

text \<open>
  A shallow embedding of two React components of the waveforms front end:
  \<^verbatim>\<open>IntroRoute\<close> (\<^verbatim>\<open>src/components/IntroRoute/IntroRoute.js\<close>), which tracks
  the current step of the scroll-driven introduction, and \<^verbatim>\<open>AvailableWidth\<close>
  (\<^verbatim>\<open>src/components/AvailableWidth/AvailableWidth.js\<close>), which measures the width
  of its container. Browser inputs (bounding rectangles, \<^verbatim>\<open>window.innerHeight\<close>,
  observer entries) are arguments of the functions that read them.
\<close>

section \<open>JavaScript values and arrays\<close>

text \<open>
  A step identifier (\<^verbatim>\<open>IntroStep\<close>) is a JavaScript primitive; the array
  \<^verbatim>\<open>INTRO_STEPS\<close> and the type \<^verbatim>\<open>IntroStep\<close> live in the constants module, so
  \<^verbatim>\<open>INTRO_STEPS\<close> is a parameter of every function below. Reading an array outside
  its bounds yields \<^verbatim>\<open>undefined\<close>, so \<^verbatim>\<open>undefined\<close> is a value of the model.
  Numbers that identify steps or positions are integers here.
\<close>

datatype jsval = Undefined | Num int | Str string

text \<open>\<^verbatim>\<open>xs[i]\<close> for an integer \<^verbatim>\<open>i\<close>: the element, or \<^verbatim>\<open>undefined\<close> out of range.\<close>

definition array_get :: "jsval list \<Rightarrow> int \<Rightarrow> jsval" where
  "array_get xs i = (if 0 \<le> i \<and> i < int (length xs) then xs ! nat i else Undefined)"

text \<open>
  \<^verbatim>\<open>Array.prototype.findIndex\<close>: the loop visits the elements in order with a
  counter \<open>k\<close> and returns the counter at the first element that satisfies the
  predicate, \<open>-1\<close> when none does.
\<close>

fun findIndex_from :: "('a \<Rightarrow> bool) \<Rightarrow> 'a list \<Rightarrow> int \<Rightarrow> int" where
  "findIndex_from P [] k = -1"
| "findIndex_from P (x # xs) k = (if P x then k else findIndex_from P xs (k + 1))"

definition findIndex :: "('a \<Rightarrow> bool) \<Rightarrow> 'a list \<Rightarrow> int" where
  "findIndex P xs = findIndex_from P xs 0"

text \<open>\<^verbatim>\<open>Array.prototype.indexOf\<close>: the first position holding a strictly equal value.\<close>

definition indexOf :: "jsval list \<Rightarrow> jsval \<Rightarrow> int" where
  "indexOf xs v = findIndex (\<lambda>x. x = v) xs"

section \<open>IntroRoute: the step tracker\<close>

subsection \<open>Component state and \<^verbatim>\<open>setState\<close>\<close>

text \<open>\<^verbatim>\<open>type State\<close> (IntroRoute.js, lines 29-36); numbers are reals.\<close>

record state =
  currentStep :: jsval
  windowHeight :: real
  amplitude :: real
  frequency :: real
  shape :: string
  userEnabledSound :: bool

text \<open>
  The argument of \<^verbatim>\<open>this.setState\<close> is an object holding some of the state's keys.
  A key that is present with the value \<^verbatim>\<open>undefined\<close> is \<open>Some Undefined\<close>; an absent
  key is \<open>None\<close>.
\<close>

record update =
  upd_currentStep :: "jsval option"
  upd_windowHeight :: "real option"
  upd_amplitude :: "real option"
  upd_frequency :: "real option"
  upd_shape :: "string option"
  upd_userEnabledSound :: "bool option"

definition no_update :: update where
  "no_update = \<lparr> upd_currentStep = None, upd_windowHeight = None, upd_amplitude = None,
     upd_frequency = None, upd_shape = None, upd_userEnabledSound = None \<rparr>"

text \<open>React merges the object into the state key by key.\<close>

definition setState :: "state \<Rightarrow> update \<Rightarrow> state" where
  "setState s u =
     \<lparr> currentStep = (case upd_currentStep u of None \<Rightarrow> currentStep s | Some v \<Rightarrow> v),
       windowHeight = (case upd_windowHeight u of None \<Rightarrow> windowHeight s | Some v \<Rightarrow> v),
       amplitude = (case upd_amplitude u of None \<Rightarrow> amplitude s | Some v \<Rightarrow> v),
       frequency = (case upd_frequency u of None \<Rightarrow> frequency s | Some v \<Rightarrow> v),
       shape = (case upd_shape u of None \<Rightarrow> shape s | Some v \<Rightarrow> v),
       userEnabledSound =
         (case upd_userEnabledSound u of None \<Rightarrow> userEnabledSound s | Some v \<Rightarrow> v) \<rparr>"

text \<open>
  A handler is modelled by the list of \<^verbatim>\<open>setState\<close> calls it makes, in order, so
  that a handler which makes no call (\<open>[]\<close>) differs from one which stores the value
  the state already has. \<open>after s calls\<close> is the state once the calls are merged.
\<close>

definition after :: "state \<Rightarrow> update list \<Rightarrow> state" where
  "after s calls = foldl setState s calls"

text \<open>
  The initial state (lines 51-58); \<^verbatim>\<open>window.innerHeight\<close> and
  \<^verbatim>\<open>DEFAULT_WAVEFORM_SHAPE\<close> are inputs.
\<close>

definition initial_state :: "jsval list \<Rightarrow> real \<Rightarrow> string \<Rightarrow> state" where
  "initial_state INTRO_STEPS innerHeight default_shape =
     \<lparr> currentStep = array_get INTRO_STEPS 0, windowHeight = innerHeight, amplitude = 1,
       frequency = 1, shape = default_shape, userEnabledSound = False \<rparr>"

subsection \<open>The setters\<close>

text \<open>Lines 72-82: each makes one \<^verbatim>\<open>setState\<close> call with one key.\<close>

definition handleUpdateAmplitude :: "real \<Rightarrow> state \<Rightarrow> update list" where
  "handleUpdateAmplitude val s = [no_update\<lparr>upd_amplitude := Some val\<rparr>]"

definition handleUpdateFrequency :: "real \<Rightarrow> state \<Rightarrow> update list" where
  "handleUpdateFrequency val s = [no_update\<lparr>upd_frequency := Some val\<rparr>]"

definition handleToggleAudibility :: "bool \<Rightarrow> state \<Rightarrow> update list" where
  "handleToggleAudibility val s = [no_update\<lparr>upd_userEnabledSound := Some val\<rparr>]"

text \<open>
  The body of the debounced resize handler (lines 84-86); \<open>innerHeight\<close> is
  \<^verbatim>\<open>window.innerHeight\<close> when the body runs.
\<close>

definition handleResize :: "real \<Rightarrow> state \<Rightarrow> update list" where
  "handleResize innerHeight s = [no_update\<lparr>upd_windowHeight := Some innerHeight\<rparr>]"

subsection \<open>The scroll fallback\<close>

text \<open>
  A rendered section: the step identifier it was rendered with (\<^verbatim>\<open>section.id\<close>) and
  the \<^verbatim>\<open>bottom\<close> of its element's bounding rectangle, relative to the viewport top.
  \<^verbatim>\<open>sectionRefs\<close>, typed \<^verbatim>\<open>Array<HTMLElement>\<close>, holds the sections in rendering
  order (lines 199-210).
\<close>

record Section =
  section_id :: jsval
  bottom :: real

definition activeSectionIndex :: "Section list \<Rightarrow> int" where
  "activeSectionIndex sectionRefs = findIndex (\<lambda>sec. bottom sec \<ge> 0) sectionRefs"

text \<open>
  The body of the debounced scroll handler (lines 88-104). The guard compares the
  index, a number, with the current step by \<^verbatim>\<open>!==\<close>; when it holds, the handler
  stores \<^verbatim>\<open>INTRO_STEPS[activeSectionIndex]\<close>.
\<close>

definition handleScroll :: "jsval list \<Rightarrow> Section list \<Rightarrow> state \<Rightarrow> update list" where
  "handleScroll INTRO_STEPS sectionRefs s =
     (if Num (activeSectionIndex sectionRefs) \<noteq> currentStep s
      then [no_update\<lparr>upd_currentStep :=
              Some (array_get INTRO_STEPS (activeSectionIndex sectionRefs))\<rparr>]
      else [])"

subsection \<open>The intersection handler\<close>

text \<open>
  Lines 106-123. \<open>intersectDirection\<close> is the local \<^verbatim>\<open>direction\<close>, \<open>nextStep\<close> the
  local \<^verbatim>\<open>nextStep\<close>; \<^verbatim>\<open>currentStepIndex\<close> is computed and never used.
\<close>

datatype direction = Forwards | Backwards

definition intersectDirection :: "jsval \<Rightarrow> state \<Rightarrow> direction" where
  "intersectDirection step_id s = (if step_id = currentStep s then Forwards else Backwards)"

definition nextStep :: "jsval list \<Rightarrow> jsval \<Rightarrow> state \<Rightarrow> jsval" where
  "nextStep INTRO_STEPS step_id s =
     (let intersectStepIndex = indexOf INTRO_STEPS step_id in
      if intersectDirection step_id s = Forwards
      then array_get INTRO_STEPS (intersectStepIndex + 1)
      else array_get INTRO_STEPS intersectStepIndex)"

definition handleIntersect :: "jsval list \<Rightarrow> jsval \<Rightarrow> state \<Rightarrow> update list" where
  "handleIntersect INTRO_STEPS step_id s =
     [no_update\<lparr>upd_currentStep := Some (nextStep INTRO_STEPS step_id s)\<rparr>]"

subsection \<open>Events\<close>

text \<open>
  What reaches the component: the three setters called by child components, the bodies
  of the two debounced window handlers, and the intersection callback of a section.
  A scroll event carries the sections as they are laid out when the body runs, a resize
  event carries \<^verbatim>\<open>window.innerHeight\<close>. The \<^verbatim>\<open>entry\<close> argument of
  \<^verbatim>\<open>handleIntersect\<close> is never read and is left out.
\<close>

datatype event =
  UpdateAmplitude real
| UpdateFrequency real
| ToggleAudibility bool
| Resize real
| Scroll "Section list"
| Intersect jsval

fun handle :: "jsval list \<Rightarrow> event \<Rightarrow> state \<Rightarrow> update list" where
  "handle INTRO_STEPS (UpdateAmplitude val) s = handleUpdateAmplitude val s"
| "handle INTRO_STEPS (UpdateFrequency val) s = handleUpdateFrequency val s"
| "handle INTRO_STEPS (ToggleAudibility val) s = handleToggleAudibility val s"
| "handle INTRO_STEPS (Resize innerHeight) s = handleResize innerHeight s"
| "handle INTRO_STEPS (Scroll sectionRefs) s = handleScroll INTRO_STEPS sectionRefs s"
| "handle INTRO_STEPS (Intersect step_id) s = handleIntersect INTRO_STEPS step_id s"

definition step :: "jsval list \<Rightarrow> state \<Rightarrow> event \<Rightarrow> state" where
  "step INTRO_STEPS s e = after s (handle INTRO_STEPS e s)"

definition run :: "jsval list \<Rightarrow> state \<Rightarrow> event list \<Rightarrow> state" where
  "run INTRO_STEPS s events = foldl (step INTRO_STEPS) s events"

section \<open>AvailableWidth: the width observer\<close>

subsection \<open>State and rendering\<close>

datatype js_error = TypeError

text \<open>\<^verbatim>\<open>State = { width?: number }\<close>; the initial state \<^verbatim>\<open>{}\<close> has no width.\<close>

record width_state =
  width :: "real option"

definition setState_width :: "width_state \<Rightarrow> real \<Rightarrow> width_state" where
  "setState_width s w = s\<lparr>width := Some w\<rparr>"

text \<open>
  The content \<open>render\<close> puts inside its \<^verbatim>\<open>div\<close>, the value of
  \<^verbatim>\<open>width !== undefined && children(width)\<close>. \<open>None\<close> is the value \<^verbatim>\<open>false\<close>, for
  which React renders nothing; \<open>children\<close> is the render prop.
\<close>

definition render :: "(real \<Rightarrow> 'node) \<Rightarrow> width_state \<Rightarrow> 'node option" where
  "render children s = (case width s of None \<Rightarrow> None | Some w \<Rightarrow> Some (children w))"

subsection \<open>The resize observer\<close>

text \<open>
  Of the browser's \<^verbatim>\<open>ResizeObserver\<close> the model keeps the elements it observes
  (elements are numbered). \<open>observe\<close> adds a target once, \<open>disconnect\<close> drops them
  all. An entry carries its target and the width of its content rectangle, the one
  field the callback reads.
\<close>

record ResizeObserver =
  observed :: "nat list"

record resize_entry =
  target :: nat
  contentRect_width :: real

definition new_ResizeObserver :: ResizeObserver where
  "new_ResizeObserver = \<lparr> observed = [] \<rparr>"

definition observe :: "ResizeObserver \<Rightarrow> nat \<Rightarrow> ResizeObserver" where
  "observe ob e = ob\<lparr>observed := (if e \<in> set (observed ob) then observed ob
                                    else observed ob @ [e])\<rparr>"

definition disconnect :: "ResizeObserver \<Rightarrow> ResizeObserver" where
  "disconnect ob = ob\<lparr>observed := []\<rparr>"

subsection \<open>The component\<close>

text \<open>
  The instance: its state, the element captured by the \<^verbatim>\<open>ref\<close> callback, and the
  \<^verbatim>\<open>observer\<close> field, which holds nothing until \<open>componentDidMount\<close> assigns it.
\<close>

record AvailableWidth =
  aw_state :: width_state
  elem :: nat
  observer :: "ResizeObserver option"

definition new_AvailableWidth :: "nat \<Rightarrow> AvailableWidth" where
  "new_AvailableWidth e = \<lparr> aw_state = \<lparr> width = None \<rparr>, elem = e, observer = None \<rparr>"

text \<open>
  The callback given to the observer (AvailableWidth.js, lines 29-31) destructures
  the first entry; on an empty array
  the entry is \<^verbatim>\<open>undefined\<close> and reading \<^verbatim>\<open>entry.contentRect\<close> throws.
\<close>

definition observerCallback :: "resize_entry list \<Rightarrow> width_state \<Rightarrow> js_error + width_state" where
  "observerCallback entries s =
     (case entries of
        [] \<Rightarrow> Inl TypeError
      | entry # _ \<Rightarrow> Inr (setState_width s (contentRect_width entry)))"

text \<open>
  Lines 19-34: \<open>measured\<close> is \<^verbatim>\<open>this.elem.getBoundingClientRect().width\<close> at the
  time of the call. Lines 36-38: the unmount calls \<^verbatim>\<open>disconnect\<close> on the
  \<^verbatim>\<open>observer\<close> field, which throws if the field holds nothing.
\<close>

definition AvailableWidth_componentDidMount :: "real \<Rightarrow> AvailableWidth \<Rightarrow> AvailableWidth" where
  "AvailableWidth_componentDidMount measured c =
     c\<lparr> aw_state := setState_width (aw_state c) measured,
        observer := Some (observe new_ResizeObserver (elem c)) \<rparr>"

definition AvailableWidth_componentWillUnmount :: "AvailableWidth \<Rightarrow> js_error + AvailableWidth" where
  "AvailableWidth_componentWillUnmount c =
     (case observer c of
        None \<Rightarrow> Inl TypeError
      | Some ob \<Rightarrow> Inr (c\<lparr>observer := Some (disconnect ob)\<rparr>))"

text \<open>
  The browser reports size changes: of the changed elements it keeps those the
  observer observes and, when any is left, calls the callback with their entries.
\<close>

definition notify :: "resize_entry list \<Rightarrow> AvailableWidth \<Rightarrow> js_error + AvailableWidth" where
  "notify changes c =
     (case observer c of
        None \<Rightarrow> Inr c
      | Some ob \<Rightarrow>
          (let entries = filter (\<lambda>e. target e \<in> set (observed ob)) changes in
           if entries = [] then Inr c
           else (case observerCallback entries (aw_state c) of
                   Inl err \<Rightarrow> Inl err
                 | Inr s' \<Rightarrow> Inr (c\<lparr>aw_state := s'\<rparr>))))"

text \<open>The component's observer exists and observes the component's element.\<close>

definition observing :: "AvailableWidth \<Rightarrow> bool" where
  "observing c = (case observer c of None \<Rightarrow> False | Some ob \<Rightarrow> elem c \<in> set (observed ob))"

text \<open>
  The life of an instance as a sequence of events; a run stops at the first error.
\<close>

datatype width_event = Mount real | Observed "resize_entry list" | Unmount

fun width_step :: "AvailableWidth \<Rightarrow> width_event \<Rightarrow> js_error + AvailableWidth" where
  "width_step c (Mount measured) = Inr (AvailableWidth_componentDidMount measured c)"
| "width_step c (Observed changes) = notify changes c"
| "width_step c Unmount = AvailableWidth_componentWillUnmount c"

fun width_run :: "AvailableWidth \<Rightarrow> width_event list \<Rightarrow> js_error + AvailableWidth" where
  "width_run c [] = Inr c"
| "width_run c (e # es) =
     (case width_step c e of Inl err \<Rightarrow> Inl err | Inr c' \<Rightarrow> width_run c' es)"

section \<open>IntroRoute: window listeners\<close>

text \<open>
  The window's listener list holds pairs of an event type and a listener. The two
  listeners of the component are its debounced handlers, that is the wrappers that
  \<^verbatim>\<open>debounce\<close> returns, not the bodies; \<open>Foreign\<close> stands for the listeners of other
  code. \<open>addEventListener\<close> ignores a pair that is registered
  already, \<open>removeEventListener\<close> removes the matching pair.
\<close>

datatype listener = HandleResize | HandleScroll | Foreign nat

type_synonym window = "(string \<times> listener) list"

definition addEventListener :: "window \<Rightarrow> string \<Rightarrow> listener \<Rightarrow> window" where
  "addEventListener w ty l = (if (ty, l) \<in> set w then w else w @ [(ty, l)])"

definition removeEventListener :: "window \<Rightarrow> string \<Rightarrow> listener \<Rightarrow> window" where
  "removeEventListener w ty l = remove1 (ty, l) w"

text \<open>IntroRoute.js, lines 62-70.\<close>

definition IntroRoute_componentDidMount :: "window \<Rightarrow> window" where
  "IntroRoute_componentDidMount w =
     addEventListener (addEventListener w ''resize'' HandleResize) ''scroll'' HandleScroll"

definition IntroRoute_componentWillUnmount :: "window \<Rightarrow> window" where
  "IntroRoute_componentWillUnmount w =
     removeEventListener (removeEventListener w ''resize'' HandleResize) ''scroll'' HandleScroll"

text \<open>The listeners the window calls for an event of type \<open>ty\<close>, in order.\<close>

definition dispatchEvent :: "window \<Rightarrow> string \<Rightarrow> listener list" where
  "dispatchEvent w ty = map snd (filter (\<lambda>p. fst p = ty) w)"

text \<open>A window that holds no listener of the component, as before it mounts.\<close>

definition foreign_only :: "window \<Rightarrow> bool" where
  "foreign_only w = list_all (\<lambda>p. snd p \<noteq> HandleResize \<and> snd p \<noteq> HandleScroll) w"

section \<open>Debounced handlers\<close>

text \<open>
  Modelled from the spec: \<^verbatim>\<open>debounce\<close> of the utils module, which wraps the bodies
  of \<open>handleResize\<close> and \<open>handleScroll\<close> and is not among the sources. The spec calls
  debouncing "coalescing rapid repeated events into one delayed invocation": a call
  at time \<open>t\<close> schedules one invocation of the body for \<open>t + wait\<close> and replaces the
  invocation that is still pending. Times are in milliseconds. The function takes the
  pending invocation's due time, if any, and the times of the raw calls in the order
  they arrive, and returns the times at which the body runs; a pending invocation
  that is due when the next call arrives runs first, and the last one runs when no
  call is left.
\<close>

fun debounce :: "nat \<Rightarrow> nat option \<Rightarrow> nat list \<Rightarrow> nat list" where
  "debounce wait None [] = []"
| "debounce wait (Some due) [] = [due]"
| "debounce wait None (t # ts) = debounce wait (Some (t + wait)) ts"
| "debounce wait (Some due) (t # ts) =
     (if due \<le> t then due # debounce wait (Some (t + wait)) ts
      else debounce wait (Some (t + wait)) ts)"

text \<open>Both handlers are built with an interval of 500 and start with nothing pending.\<close>

definition handleResize_runs :: "nat list \<Rightarrow> nat list" where
  "handleResize_runs calls = debounce 500 None calls"

definition handleScroll_runs :: "nat list \<Rightarrow> nat list" where
  "handleScroll_runs calls = debounce 500 None calls"

section \<open>IntroRoute on the page: listeners and pending invocations\<close>

text \<open>
  Modelled from the spec: the wrapper that \<^verbatim>\<open>debounce\<close> of the utils module (not
  among the sources) puts around the bodies of \<open>handleResize\<close> and \<open>handleScroll\<close>,
  this time step by step. When the window calls a listener of the component at time
  \<open>t\<close>, no body runs: the wrapper schedules one invocation of its body for
  \<open>t + 500\<close> and replaces the one it holds pending. The page keeps the window's
  listeners, the due time of each wrapper's pending invocation, the component's
  state, and the bodies that have run, with their times.
\<close>

record page =
  listeners :: window
  resize_due :: "nat option"
  scroll_due :: "nat option"
  route :: state
  ran :: "(nat \<times> listener) list"

definition call_listener :: "nat \<Rightarrow> page \<Rightarrow> listener \<Rightarrow> page" where
  "call_listener t p l =
     (case l of
        HandleResize \<Rightarrow> p\<lparr>resize_due := Some (t + 500)\<rparr>
      | HandleScroll \<Rightarrow> p\<lparr>scroll_due := Some (t + 500)\<rparr>
      | Foreign n \<Rightarrow> p)"

text \<open>
  A pending invocation runs its body (IntroRoute.js, lines 84-104) on the state as it
  is then. \<open>innerHeight\<close> and \<open>sectionRefs\<close> give \<^verbatim>\<open>window.innerHeight\<close> and the
  sections' rectangles at each time.
\<close>

definition run_resize :: "(nat \<Rightarrow> real) \<Rightarrow> page \<Rightarrow> page" where
  "run_resize innerHeight p =
     (case resize_due p of
        None \<Rightarrow> p
      | Some d \<Rightarrow> p\<lparr> route := after (route p) (handleResize (innerHeight d) (route p)),
                     ran := ran p @ [(d, HandleResize)],
                     resize_due := None \<rparr>)"

definition run_scroll :: "jsval list \<Rightarrow> (nat \<Rightarrow> Section list) \<Rightarrow> page \<Rightarrow> page" where
  "run_scroll INTRO_STEPS sectionRefs p =
     (case scroll_due p of
        None \<Rightarrow> p
      | Some d \<Rightarrow> p\<lparr> route := after (route p) (handleScroll INTRO_STEPS (sectionRefs d) (route p)),
                     ran := ran p @ [(d, HandleScroll)],
                     scroll_due := None \<rparr>)"

text \<open>
  \<open>is_due limit x\<close>: the invocation \<open>x\<close> is pending and due by time \<open>limit\<close>; with no
  limit every pending invocation is due. \<open>run_timers\<close> runs the invocations that are
  due, the earlier one first.
\<close>

definition is_due :: "nat option \<Rightarrow> nat option \<Rightarrow> bool" where
  "is_due limit x =
     (case x of
        None \<Rightarrow> False
      | Some d \<Rightarrow> (case limit of None \<Rightarrow> True | Some t \<Rightarrow> d \<le> t))"

definition scroll_first :: "page \<Rightarrow> bool" where
  "scroll_first p =
     (case scroll_due p of
        None \<Rightarrow> False
      | Some a \<Rightarrow> (case resize_due p of None \<Rightarrow> False | Some b \<Rightarrow> a < b))"

definition run_timers ::
  "jsval list \<Rightarrow> (nat \<Rightarrow> real) \<Rightarrow> (nat \<Rightarrow> Section list) \<Rightarrow> nat option \<Rightarrow> page \<Rightarrow> page" where
  "run_timers INTRO_STEPS innerHeight sectionRefs limit p =
     (if is_due limit (resize_due p) \<and> is_due limit (scroll_due p)
      then (if scroll_first p
            then run_resize innerHeight (run_scroll INTRO_STEPS sectionRefs p)
            else run_scroll INTRO_STEPS sectionRefs (run_resize innerHeight p))
      else if is_due limit (resize_due p) then run_resize innerHeight p
      else if is_due limit (scroll_due p) then run_scroll INTRO_STEPS sectionRefs p
      else p)"

text \<open>
  What happens on the page, each with its time: the component mounts or unmounts
  (lines 62-70), or the window fires an event of some type. Invocations due by then
  run first. Mounting and unmounting change the listener list and nothing else:
  \<open>componentWillUnmount\<close> cancels no pending invocation.
\<close>

datatype page_event = MountRoute | UnmountRoute | Fire string

fun page_step ::
  "jsval list \<Rightarrow> (nat \<Rightarrow> real) \<Rightarrow> (nat \<Rightarrow> Section list) \<Rightarrow> page \<Rightarrow> nat \<times> page_event \<Rightarrow> page" where
  "page_step INTRO_STEPS innerHeight sectionRefs p (t, ev) =
     (let q = run_timers INTRO_STEPS innerHeight sectionRefs (Some t) p in
      case ev of
        MountRoute \<Rightarrow> q\<lparr>listeners := IntroRoute_componentDidMount (listeners q)\<rparr>
      | UnmountRoute \<Rightarrow> q\<lparr>listeners := IntroRoute_componentWillUnmount (listeners q)\<rparr>
      | Fire ty \<Rightarrow> foldl (call_listener t) q (dispatchEvent (listeners q) ty))"

text \<open>
  A run takes the events in order and at the end lets every invocation that is still
  pending run.
\<close>

definition page_run ::
  "jsval list \<Rightarrow> (nat \<Rightarrow> real) \<Rightarrow> (nat \<Rightarrow> Section list) \<Rightarrow> page \<Rightarrow> (nat \<times> page_event) list \<Rightarrow> page" where
  "page_run INTRO_STEPS innerHeight sectionRefs p events =
     run_timers INTRO_STEPS innerHeight sectionRefs None
       (foldl (page_step INTRO_STEPS innerHeight sectionRefs) p events)"

section \<open>Properties of the setters\<close>

lemma after_single:
  "after s [u] = setState s u"
  by (simp add: after_def)

lemma after_nil:
  "after s [] = s"
  by (simp add: after_def)

lemma setState_only_amplitude:
  "setState s (no_update\<lparr>upd_amplitude := Some v\<rparr>) = s\<lparr>amplitude := v\<rparr>"
  by (simp add: setState_def no_update_def)

lemma setState_only_frequency:
  "setState s (no_update\<lparr>upd_frequency := Some v\<rparr>) = s\<lparr>frequency := v\<rparr>"
  by (simp add: setState_def no_update_def)

lemma setState_only_userEnabledSound:
  "setState s (no_update\<lparr>upd_userEnabledSound := Some v\<rparr>) = s\<lparr>userEnabledSound := v\<rparr>"
  by (simp add: setState_def no_update_def)

lemma setState_only_windowHeight:
  "setState s (no_update\<lparr>upd_windowHeight := Some v\<rparr>) = s\<lparr>windowHeight := v\<rparr>"
  by (simp add: setState_def no_update_def)

lemma setState_only_currentStep:
  "setState s (no_update\<lparr>upd_currentStep := Some v\<rparr>) = s\<lparr>currentStep := v\<rparr>"
  by (simp add: setState_def no_update_def)

text \<open>
  Claim C9. Each setter changes exactly one field of the state and leaves every other
  field as it was: \<open>handleUpdateAmplitude\<close> only \<open>amplitude\<close>, \<open>handleUpdateFrequency\<close>
  only \<open>frequency\<close>, \<open>handleToggleAudibility\<close> only \<open>userEnabledSound\<close>, \<open>handleResize\<close>
  only \<open>windowHeight\<close>; none of them changes \<open>currentStep\<close>.
\<close>

theorem setters_change_one_field:
  "after s (handleUpdateAmplitude a s) = s\<lparr>amplitude := a\<rparr>
   \<and> after s (handleUpdateFrequency f s) = s\<lparr>frequency := f\<rparr>
   \<and> after s (handleToggleAudibility b s) = s\<lparr>userEnabledSound := b\<rparr>
   \<and> after s (handleResize h s) = s\<lparr>windowHeight := h\<rparr>
   \<and> currentStep (after s (handleUpdateAmplitude a s)) = currentStep s
   \<and> currentStep (after s (handleUpdateFrequency f s)) = currentStep s
   \<and> currentStep (after s (handleToggleAudibility b s)) = currentStep s
   \<and> currentStep (after s (handleResize h s)) = currentStep s"
  by (simp add: handleUpdateAmplitude_def handleUpdateFrequency_def
      handleToggleAudibility_def handleResize_def after_single
      setState_only_amplitude setState_only_frequency
      setState_only_userEnabledSound setState_only_windowHeight)

section \<open>Array search\<close>

text \<open>
  \<open>findIndex_from\<close> returns the counter of the first element that satisfies the
  predicate, and \<open>-1\<close> exactly when no element does.
\<close>

lemma findIndex_from_first:
  "i < length xs \<Longrightarrow> P (xs ! i) \<Longrightarrow> \<forall>j<i. \<not> P (xs ! j) \<Longrightarrow>
   findIndex_from P xs k = k + int i"
proof (induction xs arbitrary: i k)
  case Nil
  then show ?case by simp
next
  case (Cons x xs)
  show ?case
  proof (cases i)
    case 0
    with Cons.prems show ?thesis by simp
  next
    case (Suc m)
    with Cons.prems have nx: "\<not> P x" by auto
    from Suc Cons.prems have m: "m < length xs" "P (xs ! m)" by auto
    from Suc Cons.prems have "\<forall>j<m. \<not> P (xs ! j)" by auto
    with m have "findIndex_from P xs (k + 1) = (k + 1) + int m"
      by (rule Cons.IH)
    with nx Suc show ?thesis by simp
  qed
qed

lemma findIndex_from_none:
  "\<forall>x\<in>set xs. \<not> P x \<Longrightarrow> findIndex_from P xs k = -1"
  by (induction xs arbitrary: k) auto

lemma findIndex_from_found:
  "\<exists>x\<in>set xs. P x \<Longrightarrow>
   \<exists>i. i < length xs \<and> P (xs ! i) \<and> (\<forall>j<i. \<not> P (xs ! j))
     \<and> findIndex_from P xs k = k + int i"
proof (induction xs arbitrary: k)
  case Nil
  then show ?case by simp
next
  case (Cons x xs)
  show ?case
  proof (cases "P x")
    case True
    then have "0 < length (x # xs) \<and> P ((x # xs) ! 0) \<and> (\<forall>j<0. \<not> P ((x # xs) ! j))
        \<and> findIndex_from P (x # xs) k = k + int 0" by simp
    then show ?thesis by blast
  next
    case False
    with Cons.prems have "\<exists>x\<in>set xs. P x" by auto
    then obtain i where i: "i < length xs" "P (xs ! i)" "\<forall>j<i. \<not> P (xs ! j)"
        "findIndex_from P xs (k + 1) = (k + 1) + int i"
      using Cons.IH by blast
    have "\<forall>j<Suc i. \<not> P ((x # xs) ! j)"
    proof (intro allI impI)
      fix j assume "j < Suc i"
      then show "\<not> P ((x # xs) ! j)" using False i(3) by (cases j) auto
    qed
    with i False have "Suc i < length (x # xs) \<and> P ((x # xs) ! Suc i)
        \<and> (\<forall>j<Suc i. \<not> P ((x # xs) ! j))
        \<and> findIndex_from P (x # xs) k = k + int (Suc i)" by simp
    then show ?thesis by blast
  qed
qed

lemma findIndex_range:
  "findIndex P xs = -1 \<or> (0 \<le> findIndex P xs \<and> findIndex P xs < int (length xs))"
proof (cases "\<exists>x\<in>set xs. P x")
  case True
  from findIndex_from_found[OF this, of 0] show ?thesis by (auto simp: findIndex_def)
next
  case False
  then show ?thesis by (simp add: findIndex_def findIndex_from_none)
qed

lemma indexOf_first:
  "i < length xs \<Longrightarrow> xs ! i = v \<Longrightarrow> \<forall>j<i. xs ! j \<noteq> v \<Longrightarrow> indexOf xs v = int i"
  using findIndex_from_first[of i xs "\<lambda>x. x = v" 0]
  by (simp add: indexOf_def findIndex_def)

lemma activeSectionIndex_range:
  "-1 \<le> activeSectionIndex sectionRefs
   \<and> activeSectionIndex sectionRefs < int (length sectionRefs)"
  using findIndex_range[of "\<lambda>sec. bottom sec \<ge> 0" sectionRefs]
  by (auto simp: activeSectionIndex_def)

lemma array_get_member: "array_get xs i \<in> insert Undefined (set xs)"
proof (cases "0 \<le> i \<and> i < int (length xs)")
  case True
  then have "nat i < length xs" by linarith
  then have "xs ! nat i \<in> set xs" by (rule nth_mem)
  with True show ?thesis by (simp add: array_get_def)
next
  case False
  then show ?thesis by (auto simp: array_get_def)
qed

section \<open>Reachable states of IntroRoute\<close>

text \<open>
  Every value stored in \<open>currentStep\<close> is read from \<^verbatim>\<open>INTRO_STEPS\<close> by position, so
  in every reachable state the current step is an element of \<^verbatim>\<open>INTRO_STEPS\<close> or
  \<^verbatim>\<open>undefined\<close>.
\<close>

lemma currentStep_after_handle:
  "currentStep (after s (handle INTRO_STEPS e s)) = currentStep s
   \<or> currentStep (after s (handle INTRO_STEPS e s)) \<in> insert Undefined (set INTRO_STEPS)"
proof (cases e)
  case (Scroll sectionRefs)
  then show ?thesis
    using array_get_member[of INTRO_STEPS "activeSectionIndex sectionRefs"]
    by (simp add: handleScroll_def after_single after_nil setState_only_currentStep)
next
  case (Intersect step_id)
  then show ?thesis
    using array_get_member[of INTRO_STEPS "indexOf INTRO_STEPS step_id"]
      array_get_member[of INTRO_STEPS "indexOf INTRO_STEPS step_id + 1"]
    by (simp add: handleIntersect_def nextStep_def Let_def after_single
        setState_only_currentStep)
qed (simp_all add: handleUpdateAmplitude_def handleUpdateFrequency_def
      handleToggleAudibility_def handleResize_def after_single
      setState_only_amplitude setState_only_frequency
      setState_only_userEnabledSound setState_only_windowHeight)

lemma run_currentStep_member:
  "currentStep s \<in> insert Undefined (set INTRO_STEPS) \<Longrightarrow>
   currentStep (run INTRO_STEPS s events) \<in> insert Undefined (set INTRO_STEPS)"
proof (induction events arbitrary: s)
  case Nil
  then show ?case by (simp add: run_def)
next
  case (Cons e events)
  have "currentStep (step INTRO_STEPS s e) \<in> insert Undefined (set INTRO_STEPS)"
    using currentStep_after_handle[of s INTRO_STEPS e] Cons.prems
    by (auto simp: step_def)
  then have "currentStep (run INTRO_STEPS (step INTRO_STEPS s e) events)
      \<in> insert Undefined (set INTRO_STEPS)"
    by (rule Cons.IH)
  then show ?case by (simp add: run_def)
qed

lemma initial_currentStep_member:
  "currentStep (initial_state INTRO_STEPS h d) \<in> insert Undefined (set INTRO_STEPS)"
  using array_get_member[of INTRO_STEPS 0] by (simp add: initial_state_def)

lemmas eval_defs = handleScroll_def handleIntersect_def nextStep_def intersectDirection_def
  indexOf_def findIndex_def activeSectionIndex_def array_get_def initial_state_def
  after_def setState_def no_update_def run_def step_def Let_def

section \<open>The scroll fallback: what \<open>handleScroll\<close> stores\<close>

text \<open>
  When section \<open>i\<close> is the first whose rectangle has \<^verbatim>\<open>bottom >= 0\<close> and the
  guard holds (the current step is not the number \<open>i\<close>), \<open>handleScroll\<close> finds index
  \<open>i\<close> and stores \<^verbatim>\<open>INTRO_STEPS[i]\<close>, which is that section's step when the
  sections are rendered in the order of \<^verbatim>\<open>INTRO_STEPS\<close>.
\<close>

lemma handleScroll_first_visible_guarded:
  assumes order: "map section_id sectionRefs = INTRO_STEPS"
    and i: "i < length sectionRefs"
    and visible: "bottom (sectionRefs ! i) \<ge> 0"
    and first: "\<forall>j<i. bottom (sectionRefs ! j) < 0"
    and guard: "currentStep s \<noteq> Num (int i)"
  shows "activeSectionIndex sectionRefs = int i
         \<and> currentStep (after s (handleScroll INTRO_STEPS sectionRefs s))
             = section_id (sectionRefs ! i)"
proof -
  from first have "\<forall>j<i. \<not> bottom (sectionRefs ! j) \<ge> 0" by (simp add: not_le)
  with i visible have "findIndex_from (\<lambda>sec. bottom sec \<ge> 0) sectionRefs 0 = 0 + int i"
    by (rule findIndex_from_first)
  then have idx: "activeSectionIndex sectionRefs = int i"
    by (simp add: activeSectionIndex_def findIndex_def)
  from order i have len: "i < length INTRO_STEPS" by auto
  from order i have "INTRO_STEPS ! i = section_id (sectionRefs ! i)" by auto
  with len have "array_get INTRO_STEPS (int i) = section_id (sectionRefs ! i)"
    by (simp add: array_get_def)
  with idx guard show ?thesis
    by (auto simp: handleScroll_def after_single setState_only_currentStep)
qed

text \<open>
  Claim C4. The steps are named stages: every element of \<^verbatim>\<open>INTRO_STEPS\<close> is a
  string, and the sections are rendered in the order of \<^verbatim>\<open>INTRO_STEPS\<close>. Then in
  every state the component reaches from its initial state, when some section has
  \<^verbatim>\<open>bottom >= 0\<close>, \<open>handleScroll\<close> scans the sections in order, selects the first
  such section (position \<open>i\<close>), and makes that section's step the current step.
\<close>

theorem handleScroll_makes_first_visible_current:
  assumes names: "\<forall>x\<in>set INTRO_STEPS. \<exists>name. x = Str name"
    and order: "map section_id sectionRefs = INTRO_STEPS"
    and i: "i < length sectionRefs"
    and visible: "bottom (sectionRefs ! i) \<ge> 0"
    and first: "\<forall>j<i. bottom (sectionRefs ! j) < 0"
  shows "activeSectionIndex sectionRefs = int i
     \<and> currentStep
         (after (run INTRO_STEPS (initial_state INTRO_STEPS h d) events)
            (handleScroll INTRO_STEPS sectionRefs
               (run INTRO_STEPS (initial_state INTRO_STEPS h d) events)))
       = section_id (sectionRefs ! i)"
proof -
  let ?s = "run INTRO_STEPS (initial_state INTRO_STEPS h d) events"
  have mem: "currentStep ?s \<in> insert Undefined (set INTRO_STEPS)"
    by (rule run_currentStep_member[OF initial_currentStep_member])
  have guard: "currentStep ?s \<noteq> Num (int i)"
  proof
    assume "currentStep ?s = Num (int i)"
    with mem have "Num (int i) \<in> set INTRO_STEPS" by auto
    with names show False by auto
  qed
  from order i visible first guard show ?thesis
    by (rule handleScroll_first_visible_guarded)
qed

text \<open>
  Claim C4 at work: two sections, the first scrolled out above the viewport; after a
  resize event the fallback moves the current step from \<open>''a''\<close> to \<open>''b''\<close>.
\<close>

theorem handleScroll_makes_first_visible_current_witness:
  "activeSectionIndex
     [\<lparr>section_id = Str ''a'', bottom = -20\<rparr>, \<lparr>section_id = Str ''b'', bottom = 300\<rparr>] = 1
   \<and> currentStep (run [Str ''a'', Str ''b'']
        (initial_state [Str ''a'', Str ''b''] 800 ''sine'') [Resize 600]) = Str ''a''
   \<and> currentStep
        (after (run [Str ''a'', Str ''b'']
                  (initial_state [Str ''a'', Str ''b''] 800 ''sine'') [Resize 600])
           (handleScroll [Str ''a'', Str ''b'']
              [\<lparr>section_id = Str ''a'', bottom = -20\<rparr>, \<lparr>section_id = Str ''b'', bottom = 300\<rparr>]
              (run [Str ''a'', Str ''b'']
                 (initial_state [Str ''a'', Str ''b''] 800 ''sine'') [Resize 600])))
       = Str ''b''"
proof -
  let ?secs = "[\<lparr>section_id = Str ''a'', bottom = -20\<rparr>,
                \<lparr>section_id = Str ''b'', bottom = (300::real)\<rparr>]"
  have names: "\<forall>x\<in>set [Str ''a'', Str ''b'']. \<exists>name. x = Str name" by simp
  have order: "map section_id ?secs = [Str ''a'', Str ''b'']" by simp
  have i: "(1::nat) < length ?secs" by simp
  have visible: "bottom (?secs ! 1) \<ge> 0" by simp
  have first: "\<forall>j<(1::nat). bottom (?secs ! j) < 0" by simp
  have cur: "currentStep (run [Str ''a'', Str ''b'']
      (initial_state [Str ''a'', Str ''b''] 800 ''sine'') [Resize 600]) = Str ''a''"
    by (simp add: eval_defs handleResize_def)
  from handleScroll_makes_first_visible_current[OF names order i visible first,
      of 800 "''sine''" "[Resize 600]"] cur
  show ?thesis by simp
qed

text \<open>
  Claim C2 at a concrete input. Both sections lie above the viewport, so \<open>findIndex\<close>
  returns \<open>-1\<close>. The handler is not a no-op: the guard \<^verbatim>\<open>-1 !== 'a'\<close> holds,
  one \<^verbatim>\<open>setState\<close> call is made, and it stores \<^verbatim>\<open>INTRO_STEPS[-1]\<close>, that is
  \<^verbatim>\<open>undefined\<close>, over the previous step \<open>''a''\<close>; the render that follows reads
  fields of \<^verbatim>\<open>steps[undefined]\<close> (line 137).
\<close>

theorem handleScroll_not_found_stores_undefined:
  "activeSectionIndex
     [\<lparr>section_id = Str ''a'', bottom = -300\<rparr>, \<lparr>section_id = Str ''b'', bottom = -20\<rparr>] = -1
   \<and> currentStep (initial_state [Str ''a'', Str ''b''] 800 ''sine'') = Str ''a''
   \<and> handleScroll [Str ''a'', Str ''b'']
        [\<lparr>section_id = Str ''a'', bottom = -300\<rparr>, \<lparr>section_id = Str ''b'', bottom = -20\<rparr>]
        (initial_state [Str ''a'', Str ''b''] 800 ''sine'')
      = [no_update\<lparr>upd_currentStep := Some Undefined\<rparr>]
   \<and> currentStep (after (initial_state [Str ''a'', Str ''b''] 800 ''sine'')
        (handleScroll [Str ''a'', Str ''b'']
          [\<lparr>section_id = Str ''a'', bottom = -300\<rparr>, \<lparr>section_id = Str ''b'', bottom = -20\<rparr>]
          (initial_state [Str ''a'', Str ''b''] 800 ''sine''))) = Undefined"
  by (simp add: eval_defs)

text \<open>
  Claim C10, as amended. If no element of \<^verbatim>\<open>INTRO_STEPS\<close> is a number that
  \<open>findIndex\<close> can return for these sections (\<open>-1\<close> or a position of
  \<^verbatim>\<open>sectionRefs\<close>), then in every state reachable from the initial one the guard of
  \<open>handleScroll\<close> holds: the handler makes its \<^verbatim>\<open>setState\<close> call whatever the
  current step is, also when the step it stores is the current one.
\<close>

theorem handleScroll_guard_always_passes:
  assumes "\<forall>x\<in>set INTRO_STEPS. \<forall>i. -1 \<le> i \<and> i < int (length sectionRefs) \<longrightarrow> x \<noteq> Num i"
  shows "handleScroll INTRO_STEPS sectionRefs
           (run INTRO_STEPS (initial_state INTRO_STEPS h d) events)
         = [no_update\<lparr>upd_currentStep :=
              Some (array_get INTRO_STEPS (activeSectionIndex sectionRefs))\<rparr>]"
proof -
  let ?s = "run INTRO_STEPS (initial_state INTRO_STEPS h d) events"
  have mem: "currentStep ?s \<in> insert Undefined (set INTRO_STEPS)"
    by (rule run_currentStep_member[OF initial_currentStep_member])
  have "Num (activeSectionIndex sectionRefs) \<noteq> currentStep ?s"
  proof
    assume eq: "Num (activeSectionIndex sectionRefs) = currentStep ?s"
    with mem have "Num (activeSectionIndex sectionRefs) \<in> set INTRO_STEPS" by auto
    with assms activeSectionIndex_range[of sectionRefs] show False by blast
  qed
  then show ?thesis by (simp add: handleScroll_def)
qed

text \<open>
  The amended C10 at work, with string identifiers: the first section is visible and
  is already the current step, and the handler still stores it.
\<close>

theorem handleScroll_guard_always_passes_witness:
  "currentStep (run [Str ''title'', Str ''about'']
      (initial_state [Str ''title'', Str ''about''] 800 ''sine'') [Resize 600]) = Str ''title''
   \<and> handleScroll [Str ''title'', Str ''about'']
        [\<lparr>section_id = Str ''title'', bottom = 40\<rparr>, \<lparr>section_id = Str ''about'', bottom = 900\<rparr>]
        (run [Str ''title'', Str ''about'']
           (initial_state [Str ''title'', Str ''about''] 800 ''sine'') [Resize 600])
       = [no_update\<lparr>upd_currentStep := Some (Str ''title'')\<rparr>]"
proof -
  let ?secs = "[\<lparr>section_id = Str ''title'', bottom = 40\<rparr>,
                \<lparr>section_id = Str ''about'', bottom = (900::real)\<rparr>]"
  have h: "\<forall>x\<in>set [Str ''title'', Str ''about''].
             \<forall>i. -1 \<le> i \<and> i < int (length ?secs) \<longrightarrow> x \<noteq> Num i"
    by simp
  have cur: "currentStep (run [Str ''title'', Str ''about'']
      (initial_state [Str ''title'', Str ''about''] 800 ''sine'') [Resize 600]) = Str ''title''"
    by (simp add: eval_defs handleResize_def)
  have idx: "array_get [Str ''title'', Str ''about''] (activeSectionIndex ?secs) = Str ''title''"
    by (simp add: eval_defs)
  from handleScroll_guard_always_passes[OF h, of 800 "''sine''" "[Resize 600]"] cur idx
  show ?thesis by simp
qed

text \<open>
  Claim C10 as stated fails when the steps are numbered from one. No element of
  \<open>[1, 2, 3]\<close> equals its own index, yet in the initial state (current step 1) with
  the second section as the first visible one (index 1) the guard \<^verbatim>\<open>1 !== 1\<close> is
  false and no \<^verbatim>\<open>setState\<close> call is made.
\<close>

theorem handleScroll_guard_counterexample:
  "[Num 1, Num 2, Num 3] ! 0 \<noteq> Num 0 \<and> [Num 1, Num 2, Num 3] ! 1 \<noteq> Num 1
   \<and> [Num 1, Num 2, Num 3] ! 2 \<noteq> Num 2
   \<and> handleScroll [Num 1, Num 2, Num 3]
        [\<lparr>section_id = Num 1, bottom = -5\<rparr>, \<lparr>section_id = Num 2, bottom = 10\<rparr>,
         \<lparr>section_id = Num 3, bottom = 500\<rparr>]
        (initial_state [Num 1, Num 2, Num 3] 800 ''sine'') = []"
  by (simp add: eval_defs)

section \<open>The intersection handler: direction and next step\<close>

text \<open>
  Claim C3, as amended. Let \<open>step_id\<close> be an element of \<^verbatim>\<open>INTRO_STEPS\<close> and \<open>i\<close>
  its first position. \<open>handleIntersect\<close> infers the direction \<open>Forwards\<close> exactly when
  \<open>step_id\<close> is the current step and \<open>Backwards\<close> otherwise. Backwards, the new
  current step is \<open>step_id\<close>. Forwards, when \<open>step_id\<close> is not the last element, the
  new current step is the element right after position \<open>i\<close>.
\<close>

theorem handleIntersect_direction_and_next:
  assumes i: "i < length INTRO_STEPS"
    and hit: "INTRO_STEPS ! i = step_id"
    and first: "\<forall>j<i. INTRO_STEPS ! j \<noteq> step_id"
  shows "(intersectDirection step_id s = Forwards \<longleftrightarrow> step_id = currentStep s)
     \<and> (intersectDirection step_id s = Backwards \<longleftrightarrow> step_id \<noteq> currentStep s)
     \<and> (step_id \<noteq> currentStep s \<longrightarrow>
          currentStep (after s (handleIntersect INTRO_STEPS step_id s)) = step_id)
     \<and> (step_id = currentStep s \<and> Suc i < length INTRO_STEPS \<longrightarrow>
          currentStep (after s (handleIntersect INTRO_STEPS step_id s)) = INTRO_STEPS ! Suc i)"
proof -
  from i hit first have idx: "indexOf INTRO_STEPS step_id = int i" by (rule indexOf_first)
  have dir: "(intersectDirection step_id s = Forwards \<longleftrightarrow> step_id = currentStep s)
     \<and> (intersectDirection step_id s = Backwards \<longleftrightarrow> step_id \<noteq> currentStep s)"
    by (simp add: intersectDirection_def)
  have bwd: "step_id \<noteq> currentStep s \<longrightarrow>
      currentStep (after s (handleIntersect INTRO_STEPS step_id s)) = step_id"
    using idx i hit
    by (simp add: handleIntersect_def nextStep_def intersectDirection_def array_get_def
        after_single setState_only_currentStep)
  have fwd: "step_id = currentStep s \<and> Suc i < length INTRO_STEPS \<longrightarrow>
      currentStep (after s (handleIntersect INTRO_STEPS step_id s)) = INTRO_STEPS ! Suc i"
  proof (intro impI)
    assume a: "step_id = currentStep s \<and> Suc i < length INTRO_STEPS"
    then have "nat (int i + 1) = Suc i" by simp
    with a idx
    show "currentStep (after s (handleIntersect INTRO_STEPS step_id s)) = INTRO_STEPS ! Suc i"
      by (simp add: handleIntersect_def nextStep_def intersectDirection_def array_get_def
          after_single setState_only_currentStep)
  qed
  from dir bwd fwd show ?thesis by blast
qed

text \<open>
  The amended C3 at work on three steps: section \<open>''b''\<close> reports while it is current
  (forwards, the step becomes \<open>''c''\<close>), and while \<open>''c''\<close> is current (backwards, the
  step becomes \<open>''b''\<close>).
\<close>

theorem handleIntersect_direction_and_next_witness:
  "intersectDirection (Str ''b'')
     ((initial_state [Str ''a'', Str ''b'', Str ''c''] 800 ''sine'')\<lparr>currentStep := Str ''b''\<rparr>)
     = Forwards
   \<and> currentStep (after
        ((initial_state [Str ''a'', Str ''b'', Str ''c''] 800 ''sine'')\<lparr>currentStep := Str ''b''\<rparr>)
        (handleIntersect [Str ''a'', Str ''b'', Str ''c''] (Str ''b'')
          ((initial_state [Str ''a'', Str ''b'', Str ''c''] 800 ''sine'')\<lparr>currentStep := Str ''b''\<rparr>)))
     = Str ''c''
   \<and> intersectDirection (Str ''b'')
     ((initial_state [Str ''a'', Str ''b'', Str ''c''] 800 ''sine'')\<lparr>currentStep := Str ''c''\<rparr>)
     = Backwards
   \<and> currentStep (after
        ((initial_state [Str ''a'', Str ''b'', Str ''c''] 800 ''sine'')\<lparr>currentStep := Str ''c''\<rparr>)
        (handleIntersect [Str ''a'', Str ''b'', Str ''c''] (Str ''b'')
          ((initial_state [Str ''a'', Str ''b'', Str ''c''] 800 ''sine'')\<lparr>currentStep := Str ''c''\<rparr>)))
     = Str ''b''"
proof -
  let ?steps = "[Str ''a'', Str ''b'', Str ''c'']"
  let ?sb = "(initial_state ?steps 800 ''sine'')\<lparr>currentStep := Str ''b''\<rparr>"
  let ?sc = "(initial_state ?steps 800 ''sine'')\<lparr>currentStep := Str ''c''\<rparr>"
  have i: "(1::nat) < length ?steps" by simp
  have hit: "?steps ! 1 = Str ''b''" by simp
  have first: "\<forall>j<(1::nat). ?steps ! j \<noteq> Str ''b''" by simp
  from handleIntersect_direction_and_next[OF i hit first, of ?sb]
    handleIntersect_direction_and_next[OF i hit first, of ?sc]
  show ?thesis by simp
qed

text \<open>
  Claim C3 as stated fails for the last step: when section \<open>''b''\<close>, the last of two,
  reports while it is current, the direction is \<open>Forwards\<close> and the handler stores
  \<^verbatim>\<open>INTRO_STEPS[2]\<close>, which is \<^verbatim>\<open>undefined\<close> and no element of \<^verbatim>\<open>INTRO_STEPS\<close>.
\<close>

theorem handleIntersect_last_step_counterexample:
  "intersectDirection (Str ''b'')
     ((initial_state [Str ''a'', Str ''b''] 800 ''sine'')\<lparr>currentStep := Str ''b''\<rparr>) = Forwards
   \<and> currentStep (after ((initial_state [Str ''a'', Str ''b''] 800 ''sine'')\<lparr>currentStep := Str ''b''\<rparr>)
        (handleIntersect [Str ''a'', Str ''b''] (Str ''b'')
           ((initial_state [Str ''a'', Str ''b''] 800 ''sine'')\<lparr>currentStep := Str ''b''\<rparr>)))
      = Undefined
   \<and> Undefined \<notin> set [Str ''a'', Str ''b'']"
  by (simp add: eval_defs)

section \<open>The current step over event sequences\<close>

text \<open>
  Claim C1 at two concrete inputs, both from the initial state over the steps
  \<open>[''a'', ''b'']\<close>. After one scroll event that finds every section above the
  viewport, and after the intersection events of \<open>''a''\<close> and then of the last step
  \<open>''b''\<close> while each is current, the current step is no element of \<^verbatim>\<open>INTRO_STEPS\<close>.
\<close>

theorem currentStep_leaves_INTRO_STEPS:
  "currentStep (run [Str ''a'', Str ''b''] (initial_state [Str ''a'', Str ''b''] 800 ''sine'')
      [Scroll [\<lparr>section_id = Str ''a'', bottom = -300\<rparr>, \<lparr>section_id = Str ''b'', bottom = -20\<rparr>]])
     \<notin> set [Str ''a'', Str ''b'']
   \<and> currentStep (run [Str ''a'', Str ''b''] (initial_state [Str ''a'', Str ''b''] 800 ''sine'')
      [Intersect (Str ''a''), Intersect (Str ''b'')])
     \<notin> set [Str ''a'', Str ''b'']"
  by (simp add: eval_defs)

section \<open>AvailableWidth: rendering and the measured width\<close>

lemma observing_after_mount:
  "observing (AvailableWidth_componentDidMount measured c)"
  by (simp add: observing_def AvailableWidth_componentDidMount_def observe_def
      new_ResizeObserver_def)

lemma notify_first_entry:
  assumes "observing c"
  shows "notify (\<lparr>target = elem c, contentRect_width = w\<rparr> # others) c
         = Inr (c\<lparr>aw_state := (aw_state c)\<lparr>width := Some w\<rparr>\<rparr>)"
proof -
  from assms obtain ob where ob: "observer c = Some ob" "elem c \<in> set (observed ob)"
    by (auto simp: observing_def split: option.splits)
  then show ?thesis
    by (simp add: notify_def observerCallback_def setState_width_def)
qed

lemma notify_keeps_width:
  assumes "notify changes c = Inr c'" and "width (aw_state c) \<noteq> None"
  shows "width (aw_state c') \<noteq> None"
proof (cases "observer c")
  case None
  with assms show ?thesis by (simp add: notify_def)
next
  case (Some ob)
  let ?entries = "filter (\<lambda>e. target e \<in> set (observed ob)) changes"
  show ?thesis
  proof (cases ?entries)
    case Nil
    with Some assms show ?thesis by (simp add: notify_def)
  next
    case (Cons entry rest)
    with Some assms show ?thesis
      by (auto simp: notify_def observerCallback_def setState_width_def)
  qed
qed

lemma notify_total:
  "\<exists>c'. notify changes c = Inr c' \<and> observer c' = observer c"
proof (cases "observer c")
  case None
  then show ?thesis by (simp add: notify_def)
next
  case (Some ob)
  let ?entries = "filter (\<lambda>e. target e \<in> set (observed ob)) changes"
  show ?thesis
  proof (cases ?entries)
    case Nil
    with Some show ?thesis by (simp add: notify_def)
  next
    case (Cons entry rest)
    with Some show ?thesis
      by (simp add: notify_def observerCallback_def)
  qed
qed

text \<open>
  Once the component has an observer and a width, every further event succeeds and
  leaves it with an observer and a width.
\<close>

lemma width_step_mounted:
  assumes "observer c \<noteq> None" and "width (aw_state c) \<noteq> None"
  shows "\<exists>c'. width_step c e = Inr c' \<and> observer c' \<noteq> None \<and> width (aw_state c') \<noteq> None"
proof (cases e)
  case (Mount measured)
  then show ?thesis
    by (simp add: AvailableWidth_componentDidMount_def setState_width_def)
next
  case (Observed changes)
  from notify_total[of changes c] obtain c' where
    c': "notify changes c = Inr c'" "observer c' = observer c" by blast
  with assms notify_keeps_width[of changes c c'] Observed show ?thesis by simp
next
  case Unmount
  with assms show ?thesis
    by (auto simp: AvailableWidth_componentWillUnmount_def)
qed

lemma width_run_mounted:
  "observer c \<noteq> None \<Longrightarrow> width (aw_state c) \<noteq> None \<Longrightarrow>
   \<exists>c'. width_run c events = Inr c' \<and> width (aw_state c') \<noteq> None"
proof (induction events arbitrary: c)
  case Nil
  then show ?case by simp
next
  case (Cons e events)
  from width_step_mounted[OF Cons.prems, of e] obtain c1 where
    c1: "width_step c e = Inr c1" "observer c1 \<noteq> None" "width (aw_state c1) \<noteq> None"
    by blast
  from Cons.IH[OF c1(2) c1(3)] c1(1) show ?case by simp
qed

text \<open>
  Claim C5. \<open>render\<close> yields no child content while the width is undefined, in
  particular for the initial state, and exactly \<open>children w\<close> once the width is the
  number \<open>w\<close>. While the observer observes the component's element, a reported
  change of that element stores the reported width, \<open>render\<close> of the state so
  updated yields \<open>children\<close> of the new width, and the observer goes on observing
  the element, so the same holds for the next report.
\<close>

theorem render_follows_width:
  assumes "observing c"
  shows "render children (aw_state (new_AvailableWidth e)) = None
     \<and> render children (s\<lparr>width := None\<rparr>) = None
     \<and> render children (s\<lparr>width := Some w\<rparr>) = Some (children w)
     \<and> (\<exists>c'. notify (\<lparr>target = elem c, contentRect_width = w'\<rparr> # others) c = Inr c'
           \<and> width (aw_state c') = Some w'
           \<and> render children (aw_state c') = Some (children w')
           \<and> observing c')"
proof -
  have "render children (aw_state (new_AvailableWidth e)) = None"
    by (simp add: render_def new_AvailableWidth_def)
  moreover have "render children (s\<lparr>width := None\<rparr>) = None"
    by (simp add: render_def)
  moreover have "render children (s\<lparr>width := Some w\<rparr>) = Some (children w)"
    by (simp add: render_def)
  moreover have "\<exists>c'. notify (\<lparr>target = elem c, contentRect_width = w'\<rparr> # others) c = Inr c'
           \<and> width (aw_state c') = Some w'
           \<and> render children (aw_state c') = Some (children w')
           \<and> observing c'"
    using notify_first_entry[OF assms, of w' others] assms
    by (auto simp: render_def observing_def split: option.splits)
  ultimately show ?thesis by simp
qed

text \<open>
  Claim C5 at work: mounted at width 640, the component is told that its element is
  now 480 wide; the children are rendered with 480.
\<close>

theorem render_follows_width_witness:
  "render (\<lambda>w. w / 2) (aw_state (new_AvailableWidth 7)) = None
   \<and> notify [\<lparr>target = 7, contentRect_width = 480\<rparr>]
        (AvailableWidth_componentDidMount 640 (new_AvailableWidth 7))
      = Inr \<lparr> aw_state = \<lparr> width = Some 480 \<rparr>, elem = 7,
              observer = Some \<lparr> observed = [7] \<rparr> \<rparr>
   \<and> render (\<lambda>w. w / 2) \<lparr> width = Some 480 \<rparr> = Some 240"
proof -
  let ?c = "AvailableWidth_componentDidMount 640 (new_AvailableWidth 7)"
  have obs: "observing ?c" by (rule observing_after_mount)
  have el: "elem ?c = 7"
    by (simp add: AvailableWidth_componentDidMount_def new_AvailableWidth_def)
  have "notify [\<lparr>target = 7, contentRect_width = 480\<rparr>] ?c
      = Inr \<lparr> aw_state = \<lparr> width = Some 480 \<rparr>, elem = 7,
              observer = Some \<lparr> observed = [7] \<rparr> \<rparr>"
    by (simp add: notify_def observerCallback_def setState_width_def
        AvailableWidth_componentDidMount_def new_AvailableWidth_def observe_def
        new_ResizeObserver_def)
  with render_follows_width[OF obs, of "\<lambda>w. w / 2" 7 "\<lparr> width = None \<rparr>" 480 480 "[]"] el
  show ?thesis by (simp add: render_def)
qed

text \<open>
  Claim C8. The width starts undefined; \<open>componentDidMount\<close> sets it to the measured
  width at once; a callback of the observer sets it to the width of the first entry;
  and from the mount on every sequence of events runs without error and ends with a
  width that is a number: nothing returns it to undefined.
\<close>

theorem width_undefined_only_before_mount:
  "width (aw_state (new_AvailableWidth e)) = None
   \<and> width (aw_state (AvailableWidth_componentDidMount measured c)) = Some measured
   \<and> observerCallback (entry # rest) s = Inr (s\<lparr>width := Some (contentRect_width entry)\<rparr>)
   \<and> (\<exists>c'. width_run (new_AvailableWidth e) (Mount measured # events) = Inr c'
          \<and> (\<exists>w. width (aw_state c') = Some w))"
proof -
  let ?c = "AvailableWidth_componentDidMount measured (new_AvailableWidth e)"
  have ob: "observer ?c \<noteq> None" by (simp add: AvailableWidth_componentDidMount_def)
  have wd: "width (aw_state ?c) \<noteq> None"
    by (simp add: AvailableWidth_componentDidMount_def setState_width_def)
  from width_run_mounted[OF ob wd, of events] obtain c' where
    c': "width_run ?c events = Inr c'" "width (aw_state c') \<noteq> None" by blast
  then have "width_run (new_AvailableWidth e) (Mount measured # events) = Inr c'
      \<and> (\<exists>w. width (aw_state c') = Some w)" by auto
  then have run: "\<exists>c'. width_run (new_AvailableWidth e) (Mount measured # events) = Inr c'
      \<and> (\<exists>w. width (aw_state c') = Some w)" by blast
  have "width (aw_state (new_AvailableWidth e)) = None"
    by (simp add: new_AvailableWidth_def)
  moreover have "width (aw_state (AvailableWidth_componentDidMount measured c)) = Some measured"
    by (simp add: AvailableWidth_componentDidMount_def setState_width_def)
  moreover have "observerCallback (entry # rest) s
      = Inr (s\<lparr>width := Some (contentRect_width entry)\<rparr>)"
    by (simp add: observerCallback_def setState_width_def)
  ultimately show ?thesis using run by simp
qed

section \<open>Unmounting\<close>

lemma foreign_only_mem:
  "foreign_only w \<Longrightarrow> (ty, HandleResize) \<notin> set w \<and> (ty, HandleScroll) \<notin> set w"
  by (auto simp: foreign_only_def list_all_iff)


lemma mount_foreign:
  assumes "foreign_only w"
  shows "IntroRoute_componentDidMount w
         = w @ [(''resize'', HandleResize), (''scroll'', HandleScroll)]"
proof -
  from foreign_only_mem[OF assms] have
    "(''resize'', HandleResize) \<notin> set w" and "(''scroll'', HandleScroll) \<notin> set w"
    by blast+
  then show ?thesis
    by (simp add: IntroRoute_componentDidMount_def addEventListener_def)
qed



lemma dispatch_mounted:
  assumes "foreign_only w"
  shows "dispatchEvent (IntroRoute_componentDidMount w) ''resize''
           = dispatchEvent w ''resize'' @ [HandleResize]
       \<and> dispatchEvent (IntroRoute_componentDidMount w) ''scroll''
           = dispatchEvent w ''scroll'' @ [HandleScroll]"
  by (simp add: mount_foreign[OF assms] dispatchEvent_def)

lemma dispatch_foreign_only:
  "foreign_only w \<Longrightarrow>
   list_all (\<lambda>l. l \<noteq> HandleResize \<and> l \<noteq> HandleScroll) (dispatchEvent w ty)"
  by (auto simp: foreign_only_def dispatchEvent_def list_all_iff)

lemma call_foreign:
  "list_all (\<lambda>l. l \<noteq> HandleResize \<and> l \<noteq> HandleScroll) ls \<Longrightarrow>
   foldl (call_listener t) q ls = q"
proof (induction ls)
  case Nil
  then show ?case by simp
next
  case (Cons l ls)
  then have "call_listener t q l = q"
    by (cases l) (simp_all add: call_listener_def)
  with Cons show ?case by simp
qed

lemma run_timers_idle:
  "resize_due p = None \<Longrightarrow> scroll_due p = None \<Longrightarrow>
   run_timers INTRO_STEPS innerHeight sectionRefs limit p = p"
  by (simp add: run_timers_def is_due_def)






section \<open>The page and \<open>debounce\<close> agree\<close>

text \<open>
  On a page where the component is mounted, the times at which the body of a handler
  runs when the window fires a series of events of its type are the times that
  \<open>debounce\<close> computes from the pending invocation and the times of the events.
\<close>

lemma fire_scroll_mounted:
  assumes "foreign_only w" and "listeners q = IntroRoute_componentDidMount w"
  shows "foldl (call_listener t) q (dispatchEvent (listeners q) ''scroll'')
         = q\<lparr>scroll_due := Some (t + 500)\<rparr>"
proof -
  have "foldl (call_listener t) q (dispatchEvent w ''scroll'') = q"
    by (rule call_foreign[OF dispatch_foreign_only[OF assms(1)]])
  with dispatch_mounted[OF assms(1)] assms(2) show ?thesis
    by (simp add: call_listener_def)
qed

lemma fire_resize_mounted:
  assumes "foreign_only w" and "listeners q = IntroRoute_componentDidMount w"
  shows "foldl (call_listener t) q (dispatchEvent (listeners q) ''resize'')
         = q\<lparr>resize_due := Some (t + 500)\<rparr>"
proof -
  have "foldl (call_listener t) q (dispatchEvent w ''resize'') = q"
    by (rule call_foreign[OF dispatch_foreign_only[OF assms(1)]])
  with dispatch_mounted[OF assms(1)] assms(2) show ?thesis
    by (simp add: call_listener_def)
qed

lemma page_scroll_runs:
  assumes "foreign_only w"
  shows "listeners p = IntroRoute_componentDidMount w \<Longrightarrow> resize_due p = None \<Longrightarrow>
    ran (page_run INTRO_STEPS innerHeight sectionRefs p (map (\<lambda>t. (t, Fire ''scroll'')) ts))
    = ran p @ map (\<lambda>d. (d, HandleScroll)) (debounce 500 (scroll_due p) ts)"
proof (induction ts arbitrary: p)
  case Nil
  then show ?case
    by (cases "scroll_due p")
      (simp_all add: page_run_def run_timers_def is_due_def run_scroll_def)
next
  case (Cons t ts)
  let ?q = "run_timers INTRO_STEPS innerHeight sectionRefs (Some t) p"
  let ?p' = "?q\<lparr>scroll_due := Some (t + 500)\<rparr>"
  have q: "listeners ?q = IntroRoute_componentDidMount w" "resize_due ?q = None"
    using Cons.prems
    by (cases "scroll_due p"; simp add: run_timers_def is_due_def run_scroll_def)+
  have st: "page_step INTRO_STEPS innerHeight sectionRefs p (t, Fire ''scroll'') = ?p'"
    using fire_scroll_mounted[OF assms q(1), of t] by simp
  have "ran (page_run INTRO_STEPS innerHeight sectionRefs ?p' (map (\<lambda>t. (t, Fire ''scroll'')) ts))
      = ran ?p' @ map (\<lambda>d. (d, HandleScroll)) (debounce 500 (scroll_due ?p') ts)"
    using q by (intro Cons.IH) simp_all
  then have run: "ran (page_run INTRO_STEPS innerHeight sectionRefs p
        (map (\<lambda>t. (t, Fire ''scroll'')) (t # ts)))
      = ran ?q @ map (\<lambda>d. (d, HandleScroll)) (debounce 500 (Some (t + 500)) ts)"
    using st by (simp add: page_run_def)
  show ?case
  proof (cases "scroll_due p")
    case None
    with Cons.prems have "?q = p" by (simp add: run_timers_idle)
    with run None show ?thesis by simp
  next
    case (Some d)
    show ?thesis
    proof (cases "d \<le> t")
      case True
      with Some Cons.prems have "ran ?q = ran p @ [(d, HandleScroll)]"
        by (simp add: run_timers_def is_due_def run_scroll_def)
      with run Some True show ?thesis by simp
    next
      case False
      with Some Cons.prems have "?q = p"
        by (simp add: run_timers_def is_due_def)
      with run Some False show ?thesis by simp
    qed
  qed
qed

lemma page_resize_runs:
  assumes "foreign_only w"
  shows "listeners p = IntroRoute_componentDidMount w \<Longrightarrow> scroll_due p = None \<Longrightarrow>
    ran (page_run INTRO_STEPS innerHeight sectionRefs p (map (\<lambda>t. (t, Fire ''resize'')) ts))
    = ran p @ map (\<lambda>d. (d, HandleResize)) (debounce 500 (resize_due p) ts)"
proof (induction ts arbitrary: p)
  case Nil
  then show ?case
    by (cases "resize_due p")
      (simp_all add: page_run_def run_timers_def is_due_def run_resize_def)
next
  case (Cons t ts)
  let ?q = "run_timers INTRO_STEPS innerHeight sectionRefs (Some t) p"
  let ?p' = "?q\<lparr>resize_due := Some (t + 500)\<rparr>"
  have q: "listeners ?q = IntroRoute_componentDidMount w" "scroll_due ?q = None"
    using Cons.prems
    by (cases "resize_due p"; simp add: run_timers_def is_due_def run_resize_def)+
  have st: "page_step INTRO_STEPS innerHeight sectionRefs p (t, Fire ''resize'') = ?p'"
    using fire_resize_mounted[OF assms q(1), of t] by simp
  have "ran (page_run INTRO_STEPS innerHeight sectionRefs ?p' (map (\<lambda>t. (t, Fire ''resize'')) ts))
      = ran ?p' @ map (\<lambda>d. (d, HandleResize)) (debounce 500 (resize_due ?p') ts)"
    using q by (intro Cons.IH) simp_all
  then have run: "ran (page_run INTRO_STEPS innerHeight sectionRefs p
        (map (\<lambda>t. (t, Fire ''resize'')) (t # ts)))
      = ran ?q @ map (\<lambda>d. (d, HandleResize)) (debounce 500 (Some (t + 500)) ts)"
    using st by (simp add: page_run_def)
  show ?case
  proof (cases "resize_due p")
    case None
    with Cons.prems have "?q = p" by (simp add: run_timers_idle)
    with run None show ?thesis by simp
  next
    case (Some d)
    show ?thesis
    proof (cases "d \<le> t")
      case True
      with Some Cons.prems have "ran ?q = ran p @ [(d, HandleResize)]"
        by (simp add: run_timers_def is_due_def run_resize_def)
      with run Some True show ?thesis by simp
    next
      case False
      with Some Cons.prems have "?q = p"
        by (simp add: run_timers_def is_due_def)
      with run Some False show ?thesis by simp
    qed
  qed
qed

section \<open>Debounce: one run per window\<close>

text \<open>
  With the calls in time order and the pending invocation due no later than \<open>wait\<close>
  after each of them, the runs are at least \<open>wait\<close> apart and none is earlier than
  the pending one.
\<close>

lemma debounce_pending_spaced:
  "sorted ts \<Longrightarrow> \<forall>t\<in>set ts. due \<le> t + wait \<Longrightarrow>
   sorted_wrt (\<lambda>x y. x + wait \<le> y) (debounce wait (Some due) ts)
   \<and> (\<forall>f\<in>set (debounce wait (Some due) ts). due \<le> f)"
proof (induction ts arbitrary: due)
  case Nil
  then show ?case by simp
next
  case (Cons t ts)
  from Cons.prems have st: "sorted ts" and le: "\<forall>u\<in>set ts. t + wait \<le> u + wait"
    by auto
  from Cons.IH[OF st le] have
    sp: "sorted_wrt (\<lambda>x y. x + wait \<le> y) (debounce wait (Some (t + wait)) ts)" and
    lo: "\<forall>f\<in>set (debounce wait (Some (t + wait)) ts). t + wait \<le> f"
    by blast+
  from Cons.prems have due: "due \<le> t + wait" by simp
  show ?case
  proof (cases "due \<le> t")
    case True
    with lo have "\<forall>f\<in>set (debounce wait (Some (t + wait)) ts). due + wait \<le> f \<and> due \<le> f"
      by fastforce
    with True sp show ?thesis by simp
  next
    case False
    from lo due have "\<forall>f\<in>set (debounce wait (Some (t + wait)) ts). due \<le> f"
      by fastforce
    with False sp show ?thesis by simp
  qed
qed

lemma debounce_spaced:
  "sorted ts \<Longrightarrow> sorted_wrt (\<lambda>x y. x + wait \<le> y) (debounce wait None ts)"
proof (cases ts)
  case Nil
  then show ?thesis by simp
next
  case (Cons t rest)
  assume "sorted ts"
  with Cons have "sorted rest" and "\<forall>u\<in>set rest. t + wait \<le> u + wait" by auto
  from debounce_pending_spaced[OF this] Cons show ?thesis by simp
qed

lemma spaced_window:
  "sorted_wrt (\<lambda>x y. x + wait \<le> y) (fs :: nat list) \<Longrightarrow>
   length (filter (\<lambda>t. a \<le> t \<and> t < a + wait) fs) \<le> 1"
proof (induction fs)
  case Nil
  then show ?case by simp
next
  case (Cons f fs)
  show ?case
  proof (cases "a \<le> f \<and> f < a + wait")
    case True
    from Cons.prems have "\<forall>g\<in>set fs. f + wait \<le> g" by simp
    with True have "\<forall>g\<in>set fs. \<not> (a \<le> g \<and> g < a + wait)" by fastforce
    then have "filter (\<lambda>t. a \<le> t \<and> t < a + wait) fs = []" by (simp add: filter_empty_conv)
    with True show ?thesis by simp
  next
    case False
    from Cons.prems have "sorted_wrt (\<lambda>x y. x + wait \<le> y) fs" by simp
    from Cons.IH[OF this] False show ?thesis by auto
  qed
qed

text \<open>
  Claim C6. For raw calls arriving in time order, however many, the body of each
  debounced handler runs at most once in every window of 500 milliseconds: of the
  run times, at most one lies in \<open>[a, a + 500)\<close>, for every start \<open>a\<close>.
\<close>

theorem debounced_once_per_window:
  assumes "sorted calls"
  shows "length (filter (\<lambda>t. a \<le> t \<and> t < a + 500) (handleScroll_runs calls)) \<le> 1
       \<and> length (filter (\<lambda>t. a \<le> t \<and> t < a + 500) (handleResize_runs calls)) \<le> 1"
  using spaced_window[OF debounce_spaced[OF assms, of 500], of a]
  by (simp add: handleScroll_runs_def handleResize_runs_def)

text \<open>
  Claim C6 at work: a burst of three calls and a later burst of two give two runs,
  at 700 and at 1600, and the window that starts at 700 holds one of them.
\<close>

theorem debounced_once_per_window_witness:
  "handleScroll_runs [0, 100, 200, 1000, 1100] = [700, 1600]
   \<and> length (filter (\<lambda>t. 700 \<le> t \<and> t < 700 + 500)
        (handleScroll_runs [0, 100, 200, 1000, 1100])) \<le> 1
   \<and> length (filter (\<lambda>t. 700 \<le> t \<and> t < 700 + 500)
        (handleResize_runs [0, 100, 200, 1000, 1100])) \<le> 1"
proof -
  have s: "sorted [0, 100, 200, 1000, 1100 :: nat]" by simp
  have r: "handleScroll_runs [0, 100, 200, 1000, 1100] = [700, 1600]"
    by (simp add: handleScroll_runs_def)
  from debounced_once_per_window[OF s, of 700] r show ?thesis by blast
qed

end
